theory Spec2Isabelle
  imports Main "HOL-Library.Sublist" "HOL-Library.Multiset"
begin

section \<open>Values exchanged with the WHOIS capability\<close>

text \<open>
  \<^verbatim>\<open>whoiser.domain\<close> resolves to a plain object keyed by the WHOIS server that answered; each
  entry (\<^verbatim>\<open>serverData: any\<close> in the service) is normally an object of field name to
  text, list of texts or nested object. The service does not rely on that shape, so values
  are modelled as JSON trees. An object is the list of its own properties in enumeration
  order, the order \<^verbatim>\<open>Object.keys\<close>, \<^verbatim>\<open>Object.values\<close> and \<^verbatim>\<open>JSON.stringify\<close> follow; the
  keys of one object are pairwise distinct. A text is the list of the bytes of its UTF-8
  encoding, so an ASCII pattern occurs in a text exactly where it occurs in its bytes.
  Numbers do not occur in WHOIS records and are left out.
\<close>

datatype json =
    JNull
  | JBool bool
  | JString string
  | JArray "json list"
  | JObject "(string \<times> json) list"

text \<open>JavaScript's \<^verbatim>\<open>ToBoolean\<close>: every object and array is truthy, the empty text is not.\<close>

fun truthy :: "json \<Rightarrow> bool" where
  "truthy JNull = False"
| "truthy (JBool b) = b"
| "truthy (JString s) = (s \<noteq> [])"
| "truthy (JArray xs) = True"
| "truthy (JObject kvs) = True"

text \<open>The \<^verbatim>\<open>typeof\<close> operator; \<^verbatim>\<open>null\<close> and arrays are objects to it.\<close>

fun typeof :: "json \<Rightarrow> string" where
  "typeof JNull = ''object''"
| "typeof (JBool b) = ''boolean''"
| "typeof (JString s) = ''string''"
| "typeof (JArray xs) = ''object''"
| "typeof (JObject kvs) = ''object''"

text \<open>An array index as a property key: its decimal numeral.\<close>

fun decimal :: "nat \<Rightarrow> string" where
  "decimal n =
     (if n < 10 then [char_of (48 + n)]
      else decimal (n div 10) @ [char_of (48 + n mod 10)])"

declare decimal.simps [simp del]

text \<open>
  \<^verbatim>\<open>Object.keys\<close> and \<^verbatim>\<open>Object.values\<close>: the own enumerable properties. An array has its
  indices, a text its character positions, a boolean none. \<^verbatim>\<open>Object.keys(null)\<close> raises a
  \<^verbatim>\<open>TypeError\<close>; the service asks only after \<^verbatim>\<open>domainInfo &&\<close>, so the case is not reached
  and is given no keys here.
\<close>

fun Object_keys :: "json \<Rightarrow> string list" where
  "Object_keys (JObject kvs) = map fst kvs"
| "Object_keys (JArray xs) = map decimal [0..<length xs]"
| "Object_keys (JString s) = map decimal [0..<length s]"
| "Object_keys (JBool b) = []"
| "Object_keys JNull = []"

fun Object_values :: "json \<Rightarrow> json list" where
  "Object_values (JObject kvs) = map snd kvs"
| "Object_values (JArray xs) = xs"
| "Object_values (JString s) = map (\<lambda>c. JString [c]) s"
| "Object_values (JBool b) = []"
| "Object_values JNull = []"

text \<open>
  Property read \<^verbatim>\<open>value[key]\<close> for the keys the service asks for (the three field names,
  and \<^verbatim>\<open>message\<close>), none of which a prototype defines for these values. \<open>None\<close> is
  \<^verbatim>\<open>undefined\<close>: texts, arrays and booleans have no such property. Reading a property of
  \<^verbatim>\<open>null\<close> raises; the callers test for that first.
\<close>

fun get_prop :: "json \<Rightarrow> string \<Rightarrow> json option" where
  "get_prop (JObject kvs) key = map_of kvs key"
| "get_prop _ key = None"

fun truthy_opt :: "json option \<Rightarrow> bool" where
  "truthy_opt None = False"
| "truthy_opt (Some v) = truthy v"

subsection \<open>Text operations\<close>

text \<open>\<^verbatim>\<open>String.prototype.includes\<close>: the pattern occurs as a contiguous run.\<close>

fun str_includes :: "string \<Rightarrow> string \<Rightarrow> bool" where
  "str_includes [] pat = (pat = [])"
| "str_includes (c # cs) pat = (prefix pat (c # cs) \<or> str_includes cs pat)"

text \<open>
  \<^verbatim>\<open>String.prototype.toLowerCase\<close> is the lower-casing of the runtime, defined by the Unicode
  tables. It is no part of the service, so every operation that lower-cases takes it as its
  first argument \<open>toLowerCase\<close>, and what is proved holds for every function put there.
\<close>

subsection \<open>\<^verbatim>\<open>JSON.stringify\<close>\<close>

definition hex_digit :: "nat \<Rightarrow> char" where
  "hex_digit n = ''0123456789abcdef'' ! (n mod 16)"

text \<open>
  One character inside a quoted JSON text: the quote and the backslash are escaped, the
  control characters below 32 get their short escape or \<^verbatim>\<open>\u00XX\<close> in lower-case hex.
\<close>

definition escape_char :: "char \<Rightarrow> string" where
  "escape_char c =
     (let n = (of_char c :: nat) in
      if n = 34 then [char_of (92::nat), char_of (34::nat)]
      else if n = 92 then [char_of (92::nat), char_of (92::nat)]
      else if n = 8 then char_of (92::nat) # ''b''
      else if n = 9 then char_of (92::nat) # ''t''
      else if n = 10 then char_of (92::nat) # ''n''
      else if n = 12 then char_of (92::nat) # ''f''
      else if n = 13 then char_of (92::nat) # ''r''
      else if n < 32 then char_of (92::nat) # ''u00'' @ [hex_digit (n div 16), hex_digit n]
      else [c])"

definition quote :: "string \<Rightarrow> string" where
  "quote s = char_of (34::nat) # concat (map escape_char s) @ [char_of (34::nat)]"

fun join :: "string \<Rightarrow> string list \<Rightarrow> string" where
  "join sep [] = []"
| "join sep [x] = x"
| "join sep (x # y # ys) = x @ sep @ join sep (y # ys)"

fun JSON_stringify :: "json \<Rightarrow> string" where
  "JSON_stringify JNull = ''null''"
| "JSON_stringify (JBool b) = (if b then ''true'' else ''false'')"
| "JSON_stringify (JString s) = quote s"
| "JSON_stringify (JArray xs) = ''['' @ join '','' (map JSON_stringify xs) @ '']''"
| "JSON_stringify (JObject kvs) =
     ''{'' @ join '','' (map (\<lambda>(k, v). quote k @ '':'' @ JSON_stringify v) kvs) @ ''}''"

subsection \<open>Conversion to text\<close>

text \<open>
  \<^verbatim>\<open>String(value)\<close> on a value of the tree: an array joins its elements with commas,
  \<^verbatim>\<open>null\<close> elements as empty texts; a plain object is \<^verbatim>\<open>[object Object]\<close>.
\<close>

fun ToString :: "json \<Rightarrow> string" where
  "ToString JNull = ''null''"
| "ToString (JBool b) = (if b then ''true'' else ''false'')"
| "ToString (JString s) = s"
| "ToString (JArray xs) =
     join '','' (map (\<lambda>x. case x of JNull \<Rightarrow> [] | _ \<Rightarrow> ToString x) xs)"
| "ToString (JObject kvs) = ''[object Object]''"

section \<open>Failures and errors\<close>

datatype ErrorType = AUTH_MISSING | AUTH_INVALID | API_ERROR | UNEXPECTED_ERROR

text \<open>
  What a failed query can raise. \<^verbatim>\<open>catch (error: any)\<close> receives whatever was thrown:
  \<^verbatim>\<open>undefined\<close>, a value of the tree (\<^verbatim>\<open>null\<close>, a text, a plain object, ...), an \<^verbatim>\<open>Error\<close>
  object with its \<^verbatim>\<open>name\<close> and its \<^verbatim>\<open>message\<close> property (\<open>None\<close> when the property is
  \<^verbatim>\<open>undefined\<close>; a text as a rule, but any value can be stored there), or an instance of the
  service's own \<^verbatim>\<open>McpError\<close> class, whose fields are \<^verbatim>\<open>message\<close>, \<^verbatim>\<open>type\<close>, \<^verbatim>\<open>statusCode\<close>
  and \<^verbatim>\<open>originalError\<close> and whose \<^verbatim>\<open>name\<close> is \<^verbatim>\<open>McpError\<close>.
\<close>

datatype thrown =
    ThrownUndefined
  | Thrown json
  | ErrorObject string "json option"
  | McpErrorObject McpError
and McpError =
    New_McpError (message: string) (error_type: ErrorType) (statusCode: "nat option")
      (originalError: "thrown option")

text \<open>What the code of the service itself can raise: reading a property of \<^verbatim>\<open>null\<close> or
  \<^verbatim>\<open>undefined\<close>, or calling a method that the value does not have.\<close>

datatype exception = TypeError

text \<open>
  \<^verbatim>\<open>error.message\<close>. The read raises on \<^verbatim>\<open>null\<close> and \<^verbatim>\<open>undefined\<close>; a plain object has the
  property if it holds the key; texts, booleans and arrays do not have it.
\<close>

fun message_of :: "thrown \<Rightarrow> exception + json option" where
  "message_of ThrownUndefined = Inl TypeError"
| "message_of (Thrown JNull) = Inl TypeError"
| "message_of (Thrown v) = Inr (get_prop v ''message'')"
| "message_of (ErrorObject name msg) = Inr msg"
| "message_of (McpErrorObject e) = Inr (Some (JString (message e)))"

text \<open>\<^verbatim>\<open>Error.prototype.toString\<close>, from the name and the message as texts.\<close>

definition Error_toString :: "string \<Rightarrow> string \<Rightarrow> string" where
  "Error_toString name msg =
     (if name = [] then msg else if msg = [] then name else name @ '': '' @ msg)"

text \<open>\<^verbatim>\<open>String(error)\<close>.\<close>

fun String_of :: "thrown \<Rightarrow> string" where
  "String_of ThrownUndefined = ''undefined''"
| "String_of (Thrown v) = ToString v"
| "String_of (ErrorObject name msg) =
     Error_toString name (case msg of None \<Rightarrow> [] | Some v \<Rightarrow> ToString v)"
| "String_of (McpErrorObject e) = Error_toString ''McpError'' (message e)"

text \<open>
  \<^verbatim>\<open>(error.message || String(error)).toLowerCase()\<close>: a truthy message is taken as it is, and
  the call of \<^verbatim>\<open>toLowerCase\<close> raises unless it is a text; a missing or falsy message falls
  through to \<^verbatim>\<open>String(error)\<close>.
\<close>

definition errorMessage :: "(string \<Rightarrow> string) \<Rightarrow> thrown \<Rightarrow> exception + string" where
  "errorMessage toLowerCase err =
     (case message_of err of
        Inl exn \<Rightarrow> Inl exn
      | Inr m \<Rightarrow>
          if truthy_opt m then
            (case m of Some (JString s) \<Rightarrow> Inr (toLowerCase s) | _ \<Rightarrow> Inl TypeError)
          else Inr (toLowerCase (String_of err)))"

text \<open>
  \<^verbatim>\<open>createUnexpectedError(message = 'An unexpected error occurred', originalError?)\<close>: the
  default stands in for an \<^verbatim>\<open>undefined\<close> message, and the \<^verbatim>\<open>Error\<close> constructor turns the
  message into a text.
\<close>

definition createUnexpectedError :: "json option \<Rightarrow> thrown option \<Rightarrow> McpError" where
  "createUnexpectedError msg original =
     New_McpError
       (case msg of None \<Rightarrow> ''An unexpected error occurred'' | Some v \<Rightarrow> ToString v)
       UNEXPECTED_ERROR None original"

text \<open>
  \<^verbatim>\<open>ensureMcpError\<close>: an \<^verbatim>\<open>McpError\<close> is returned as it is, another \<^verbatim>\<open>Error\<close> is wrapped with
  its message, anything else with its text.
\<close>

fun ensureMcpError :: "thrown \<Rightarrow> McpError" where
  "ensureMcpError (McpErrorObject e) = e"
| "ensureMcpError (ErrorObject name msg) =
     createUnexpectedError msg (Some (ErrorObject name msg))"
| "ensureMcpError (Thrown v) =
     createUnexpectedError (Some (JString (String_of (Thrown v)))) None"
| "ensureMcpError ThrownUndefined =
     createUnexpectedError (Some (JString (String_of ThrownUndefined))) None"

section \<open>The per-domain lookup\<close>

text \<open>How \<^verbatim>\<open>await whoiser.domain(domain, { timeout: 5000 })\<close> ends: with a value, or raising.\<close>

datatype whois_outcome =
    Resolved json
  | Raised thrown

datatype status = Available | Unavailable | Failed

record lookup_value =
  domain :: string
  status :: status
  error :: "McpError option"

text \<open>How a promise settles.\<close>

datatype 'a settled = Fulfilled 'a | Rejected exception

definition hasRegistrarData :: "json \<Rightarrow> bool" where
  "hasRegistrarData domainInfo =
     list_ex (\<lambda>serverData.
        truthy serverData \<and>
        (truthy_opt (get_prop serverData ''Registrar'') \<or>
         truthy_opt (get_prop serverData ''Creation Date'') \<or>
         truthy_opt (get_prop serverData ''Expiry Date'')))
       (Object_values domainInfo)"

text \<open>
  The body of the function mapped over the domains, given how \<^verbatim>\<open>whoiser.domain\<close> ended.
  The \<^verbatim>\<open>try\<close> block returns on every path. The \<^verbatim>\<open>catch\<close> block returns too, unless computing
  \<^verbatim>\<open>errorMessage\<close> raises: then the function rejects its promise.
\<close>

definition check_domain ::
  "(string \<Rightarrow> string) \<Rightarrow> string \<Rightarrow> whois_outcome \<Rightarrow> lookup_value settled" where
  "check_domain toLowerCase dname outcome =
     (case outcome of
        Resolved domainInfo \<Rightarrow>
          if truthy domainInfo \<and> typeof domainInfo = ''object'' \<and>
             length (Object_keys domainInfo) > 0 then
            if hasRegistrarData domainInfo then
              Fulfilled \<lparr>domain = dname, status = Unavailable, error = None\<rparr>
            else
              (let rawText = toLowerCase (JSON_stringify domainInfo) in
               if str_includes rawText ''no match'' \<or>
                  str_includes rawText ''not found'' \<or>
                  str_includes rawText ''domain name not known'' \<or>
                  str_includes rawText ''no entries found'' \<or>
                  str_includes rawText ''is available'' \<or>
                  str_includes rawText ''is free''
               then Fulfilled \<lparr>domain = dname, status = Available, error = None\<rparr>
               else Fulfilled \<lparr>domain = dname, status = Unavailable, error = None\<rparr>)
          else Fulfilled \<lparr>domain = dname, status = Available, error = None\<rparr>
      | Raised err \<Rightarrow>
          (case errorMessage toLowerCase err of
             Inl exn \<Rightarrow> Rejected exn
           | Inr text \<Rightarrow>
               if str_includes text ''no match'' \<or>
                  str_includes text ''not found'' \<or>
                  str_includes text ''domain name not known'' \<or>
                  str_includes text ''no entries found''
               then Fulfilled \<lparr>domain = dname, status = Available, error = None\<rparr>
               else Fulfilled \<lparr>domain = dname, status = Failed,
                               error = Some (ensureMcpError err)\<rparr>))"

section \<open>The batch operation\<close>

record DomainAvailabilityResult =
  available :: "string list"
  unavailable :: "string list"

text \<open>
  The WHOIS capability: the outcome of the query launched for the entry at a position of
  the input, given the name there. One query is made per entry, so two entries with the
  same name may see different outcomes.
\<close>

type_synonym whois = "nat \<Rightarrow> string \<Rightarrow> whois_outcome"

text \<open>\<^verbatim>\<open>domains.map(async (domain) => ...)\<close>: one promise per entry, in input order.\<close>

definition lookups ::
  "(string \<Rightarrow> string) \<Rightarrow> whois \<Rightarrow> string list \<Rightarrow> lookup_value settled list" where
  "lookups toLowerCase w domains =
     map (\<lambda>(index, dname). check_domain toLowerCase dname (w index dname))
       (zip [0..<length domains] domains)"

text \<open>
  The callback of \<^verbatim>\<open>checks.forEach\<close>. \<open>checks\<close> is as long as \<open>domains\<close>, so the read
  \<^verbatim>\<open>domains[index]\<close> is in range. The value of a fulfilled lookup is an object, hence
  truthy, so \<^verbatim>\<open>result.status === 'fulfilled' && result.value\<close> holds for every fulfilled
  lookup. A rejected lookup is logged and skipped.
\<close>

definition process_result ::
  "string list \<Rightarrow> DomainAvailabilityResult \<Rightarrow> lookup_value settled \<times> nat \<Rightarrow>
   DomainAvailabilityResult" where
  "process_result domains results p =
     (case p of (result, index) \<Rightarrow>
        (let dname = domains ! index in
         case result of
           Fulfilled v \<Rightarrow>
             if status v = Available then results\<lparr>available := available results @ [dname]\<rparr>
             else if status v = Unavailable
               then results\<lparr>unavailable := unavailable results @ [dname]\<rparr>
             else results
         | Rejected reason \<Rightarrow> results))"

definition aggregate ::
  "string list \<Rightarrow> lookup_value settled list \<Rightarrow> DomainAvailabilityResult" where
  "aggregate domains checks =
     foldl (process_result domains) \<lparr>available = [], unavailable = []\<rparr>
       (zip checks [0..<length checks])"

text \<open>
  \<^verbatim>\<open>check\<close>: \<^verbatim>\<open>Promise.allSettled\<close> yields the settlements in the order of the promises it
  was given.
\<close>

definition check ::
  "(string \<Rightarrow> string) \<Rightarrow> whois \<Rightarrow> string list \<Rightarrow> DomainAvailabilityResult" where
  "check toLowerCase w domains = aggregate domains (lookups toLowerCase w domains)"

subsection \<open>Completion order\<close>

text \<open>
  \<^verbatim>\<open>Promise.allSettled\<close> in detail: each promise writes its settlement into its own slot
  when it settles, and the await resumes once every slot is filled. \<open>order\<close> lists the
  positions in the order in which their queries complete; \<open>None\<close> means the await never
  resumes.
\<close>

definition settle :: "'a list \<Rightarrow> 'a option list \<Rightarrow> nat \<Rightarrow> 'a option list" where
  "settle promises slots i =
     (if i < length promises then slots[i := Some (promises ! i)] else slots)"

definition allSettled :: "nat list \<Rightarrow> 'a list \<Rightarrow> 'a list option" where
  "allSettled order promises =
     those (foldl (settle promises) (replicate (length promises) None) order)"

definition check_completing ::
  "(string \<Rightarrow> string) \<Rightarrow> nat list \<Rightarrow> whois \<Rightarrow> string list \<Rightarrow>
   DomainAvailabilityResult option" where
  "check_completing toLowerCase order w domains =
     (case allSettled order (lookups toLowerCase w domains) of
        None \<Rightarrow> None
      | Some checks \<Rightarrow> Some (aggregate domains checks))"

section \<open>Derived notions\<close>

text \<open>
  The verdict on an entry, as a function of how its query ended (the name of the domain
  only labels the result): the status of its lookup, and \<open>Failed\<close> as well when the lookup
  is rejected. \<open>Failed\<close> is the indeterminate verdict: such an entry is logged and put in
  neither list.
\<close>

definition verdict :: "(string \<Rightarrow> string) \<Rightarrow> whois_outcome \<Rightarrow> status" where
  "verdict toLowerCase outcome =
     (case check_domain toLowerCase [] outcome of
        Fulfilled v \<Rightarrow> status v
      | Rejected reason \<Rightarrow> Failed)"

section \<open>Worked inputs\<close>

text \<open>
  A lower-casing for the worked inputs: it folds the ASCII capitals and KELVIN SIGN (U+212A,
  the bytes E2 84 AA, whose lower case is the letter k) and leaves every other byte, as
  \<^verbatim>\<open>String.prototype.toLowerCase\<close> does on texts whose other characters have no lower case.
\<close>

definition lower_char :: "char \<Rightarrow> char" where
  "lower_char c =
     (let n = (of_char c :: nat) in if 65 \<le> n \<and> n \<le> 90 then char_of (n + 32) else c)"

fun sample_toLowerCase :: "string \<Rightarrow> string" where
  "sample_toLowerCase (a # b # c # cs) =
     (if (of_char a :: nat) = 226 \<and> (of_char b :: nat) = 132 \<and> (of_char c :: nat) = 170
      then CHR ''k'' # sample_toLowerCase cs
      else lower_char a # sample_toLowerCase (b # c # cs))"
| "sample_toLowerCase cs = map lower_char cs"

text \<open>A record with registration data, as a registry answers for a registered name.\<close>

definition registered_record :: "(string \<times> json) list" where
  "registered_record =
     [(''whois.verisign-grs.com'', JObject [(''Registrar'', JString ''MarkMonitor Inc.'')])]"

text \<open>A non-empty record with no registration field and no pattern in its text.\<close>

definition ambiguous_record :: "(string \<times> json) list" where
  "ambiguous_record =
     [(''whois.nic.dev'',
       JObject [(''text'', JArray [JString ''Rate limit'']), (''Registrar'', JString [])])]"

text \<open>A non-empty record whose text says that nothing is registered.\<close>

definition free_record :: "(string \<times> json) list" where
  "free_record =
     [(''whois.nic.dev'',
       JObject [(''text'', JArray [JString ''The domain IS FREE'']),
                (''Registrar'', JString [])])]"

text \<open>A record whose only sign of a free name is spelt with KELVIN SIGN.\<close>

definition kelvin_record :: "(string \<times> json) list" where
  "kelvin_record =
     [(''whois.nic.dev'',
       JObject [(''text'', JArray [JString (''Domain name not '' @
          [char_of (226 :: nat), char_of (132 :: nat), char_of (170 :: nat)] @ ''nown'')])])]"

definition timeout_error :: thrown where
  "timeout_error = ErrorObject ''Error'' (Some (JString ''connect ETIMEDOUT''))"

definition no_match_error :: thrown where
  "no_match_error = ErrorObject ''Error'' (Some (JString ''No match for EXAMPLE.ORG''))"


definition three_domains :: "string list" where
  "three_domains = [''a-times-out.com'', ''google.com'', ''totally-free-xyz123.dev'']"

text \<open>The first query times out, the second finds a registration, the others find nothing.\<close>

definition whois_batch :: whois where
  "whois_batch i d =
     (if i = 0 then Raised timeout_error
      else if i = 1 then Resolved (JObject registered_record)
      else Resolved (JObject []))"

text \<open>Every query times out.\<close>

definition whois_down :: whois where
  "whois_down i d = Raised timeout_error"

text \<open>The first query finds nothing, every later one finds a registration.\<close>

definition whois_split :: whois where
  "whois_split i d =
     (if i = 0 then Resolved (JObject []) else Resolved (JObject registered_record))"

text \<open>Every query fails with the registry's "no match" answer.\<close>

definition whois_gone :: whois where
  "whois_gone i d = Raised no_match_error"

text \<open>The first query times out, every later one finds nothing.\<close>

definition whois_flaky :: whois where
  "whois_flaky i d = (if i = 0 then Raised timeout_error else Resolved (JObject []))"

text \<open>Every query ends with \<^verbatim>\<open>null\<close> thrown.\<close>

definition whois_null :: whois where
  "whois_null i d = Raised (Thrown JNull)"

text \<open>Every query finds a registration.\<close>

definition whois_registered :: whois where
  "whois_registered i d = Resolved (JObject registered_record)"

text \<open>The same name asked for twice in one batch.\<close>

definition twice :: "string list" where
  "twice = [''a.com'', ''a.com'']"

section \<open>Properties of the model\<close>

subsection \<open>Texts and single lookups\<close>

lemma str_includes_sublist: "str_includes s pat \<longleftrightarrow> sublist pat s"
  by (induction s) (auto simp: sublist_Cons_right)

lemma check_domain_verdict:
  "(\<exists>e. check_domain toLowerCase d outcome =
      Fulfilled \<lparr>domain = d, status = verdict toLowerCase outcome, error = e\<rparr>) \<or>
   (\<exists>exn. check_domain toLowerCase d outcome = Rejected exn \<and>
      verdict toLowerCase outcome = Failed)"
  by (cases outcome) (auto simp: check_domain_def verdict_def Let_def split: sum.splits)

lemma process_result_verdict:
  "process_result ds results (check_domain toLowerCase d outcome, index) =
     (if verdict toLowerCase outcome = Available
        then results\<lparr>available := available results @ [ds ! index]\<rparr>
      else if verdict toLowerCase outcome = Unavailable
        then results\<lparr>unavailable := unavailable results @ [ds ! index]\<rparr>
      else results)"
  using check_domain_verdict [of toLowerCase d outcome]
  by (auto simp: process_result_def)





lemma hasRegistrarData_field:
  assumes "(source, JObject flds) \<in> set domainInfo"
    and "key \<in> {''Registrar'', ''Creation Date'', ''Expiry Date''}"
    and "map_of flds key = Some v" and "truthy v"
  shows "hasRegistrarData (JObject domainInfo)"
proof -
  have "JObject flds \<in> set (Object_values (JObject domainInfo))"
    using assms(1) by force
  moreover have "truthy (JObject flds) \<and>
      (truthy_opt (get_prop (JObject flds) ''Registrar'') \<or>
       truthy_opt (get_prop (JObject flds) ''Creation Date'') \<or>
       truthy_opt (get_prop (JObject flds) ''Expiry Date''))"
    using assms(2-4) by auto
  ultimately show ?thesis
    unfolding hasRegistrarData_def list_ex_iff by blast
qed

lemma verdict_check_domain:
  "check_domain toLowerCase d outcome = Fulfilled v \<Longrightarrow> verdict toLowerCase outcome = status v"
  using check_domain_verdict [of toLowerCase d outcome] by auto

lemma no_hasRegistrarData:
  assumes "\<forall>source flds key v.
      (source, JObject flds) \<in> set domainInfo \<and>
      key \<in> {''Registrar'', ''Creation Date'', ''Expiry Date''} \<and>
      map_of flds key = Some v \<longrightarrow> \<not> truthy v"
  shows "\<not> hasRegistrarData (JObject domainInfo)"
proof
  assume "hasRegistrarData (JObject domainInfo)"
  then obtain serverData where sd: "serverData \<in> set (Object_values (JObject domainInfo))"
    and t: "truthy_opt (get_prop serverData ''Registrar'') \<or>
            truthy_opt (get_prop serverData ''Creation Date'') \<or>
            truthy_opt (get_prop serverData ''Expiry Date'')"
    unfolding hasRegistrarData_def list_ex_iff by blast
  from t obtain key where key: "key \<in> {''Registrar'', ''Creation Date'', ''Expiry Date''}"
    and tk: "truthy_opt (get_prop serverData key)" by blast
  from tk obtain flds where obj: "serverData = JObject flds"
    by (cases serverData) simp_all
  from tk obj obtain v where v: "map_of flds key = Some v" "truthy v"
    by (cases "map_of flds key") simp_all
  from sd obj obtain source where "(source, JObject flds) \<in> set domainInfo"
    by auto
  with assms key v show False by blast
qed

subsection \<open>The report, one entry at a time\<close>

text \<open>
  Appending an entry to the input appends at most its name to one list and leaves the rest
  of the report as it was. Each list is therefore the input filtered by verdict.
\<close>

lemma length_lookups: "length (lookups toLowerCase w ds) = length ds"
  by (simp add: lookups_def)

lemma lookups_snoc:
  "lookups toLowerCase w (ds @ [d]) = lookups toLowerCase w ds @ [check_domain toLowerCase d (w (length ds) d)]"
  by (simp add: lookups_def)

lemma process_result_prefix:
  assumes "index < length ds"
  shows "process_result (ds @ [d]) r (c, index) = process_result ds r (c, index)"
  using assms by (simp add: process_result_def nth_append)

lemma aggregate_snoc:
  assumes "length cs = length ds"
  shows "aggregate (ds @ [d]) (cs @ [c]) =
         process_result (ds @ [d]) (aggregate ds cs) (c, length ds)"
proof -
  have "foldl (process_result (ds @ [d])) r (zip cs [0..<length cs]) =
        foldl (process_result ds) r (zip cs [0..<length cs])" for r
  proof (rule foldl_cong)
    fix a x assume "x \<in> set (zip cs [0..<length cs])"
    then have "snd x \<in> set [0..<length cs]"
      using set_zip_rightD [of "fst x" "snd x" cs "[0..<length cs]"] by simp
    then have "snd x < length ds" using assms by simp
    then show "process_result (ds @ [d]) a x = process_result ds a x"
      using process_result_prefix [of "snd x" ds d a "fst x"] by simp
  qed simp_all
  then show ?thesis using assms by (simp add: aggregate_def)
qed

lemma check_snoc:
  "check toLowerCase w (ds @ [d]) =
   process_result (ds @ [d]) (check toLowerCase w ds) (check_domain toLowerCase d (w (length ds) d), length ds)"
  by (simp add: check_def lookups_snoc aggregate_snoc length_lookups)

lemma available_check_snoc:
  "available (check toLowerCase w (ds @ [d])) =
   available (check toLowerCase w ds) @ (if verdict toLowerCase (w (length ds) d) = Available then [d] else [])"
  by (simp add: check_snoc process_result_verdict)

lemma unavailable_check_snoc:
  "unavailable (check toLowerCase w (ds @ [d])) =
   unavailable (check toLowerCase w ds) @ (if verdict toLowerCase (w (length ds) d) = Unavailable then [d] else [])"
  by (simp add: check_snoc process_result_verdict)

lemma check_Nil: "check toLowerCase w [] = \<lparr>available = [], unavailable = []\<rparr>"
  by (simp add: check_def lookups_def aggregate_def)

lemma available_check_filter:
  "available (check toLowerCase w ds) =
   map snd (filter (\<lambda>(i, d). verdict toLowerCase (w i d) = Available) (zip [0..<length ds] ds))"
  by (induction ds rule: rev_induct) (simp_all add: check_Nil available_check_snoc)

lemma unavailable_check_filter:
  "unavailable (check toLowerCase w ds) =
   map snd (filter (\<lambda>(i, d). verdict toLowerCase (w i d) = Unavailable) (zip [0..<length ds] ds))"
  by (induction ds rule: rev_induct) (simp_all add: check_Nil unavailable_check_snoc)

lemma lookups_cong:
  assumes "\<forall>k<length ds. w' k (ds ! k) = w k (ds ! k)"
  shows "lookups toLowerCase w' ds = lookups toLowerCase w ds"
  unfolding lookups_def
proof (rule map_cong [OF refl])
  fix x assume "x \<in> set (zip [0..<length ds] ds)"
  then obtain k where "k < length ds" "x = (k, ds ! k)"
    by (auto simp: set_zip)
  with assms show "(case x of (index, dname) \<Rightarrow> check_domain toLowerCase dname (w' index dname)) =
                   (case x of (index, dname) \<Rightarrow> check_domain toLowerCase dname (w index dname))"
    by simp
qed

lemma check_cong:
  assumes "\<forall>k<length ds. w' k (ds ! k) = w k (ds ! k)"
  shows "check toLowerCase w' ds = check toLowerCase w ds"
  using lookups_cong [of ds w' w toLowerCase] assms by (simp add: check_def)

subsection \<open>Which names a list holds\<close>

lemma in_filter_zip_iff:
  "d \<in> set (map snd (filter P (zip [0..<length ds] ds))) \<longleftrightarrow>
   (\<exists>i<length ds. ds ! i = d \<and> P (i, d))"
  by (force simp: set_zip)

lemma in_available_iff:
  "d \<in> set (available (check toLowerCase w ds)) \<longleftrightarrow>
   (\<exists>i<length ds. ds ! i = d \<and> verdict toLowerCase (w i d) = Available)"
  unfolding available_check_filter
  using in_filter_zip_iff [of d "\<lambda>(i, d). verdict toLowerCase (w i d) = Available" ds] by simp

lemma in_unavailable_iff:
  "d \<in> set (unavailable (check toLowerCase w ds)) \<longleftrightarrow>
   (\<exists>i<length ds. ds ! i = d \<and> verdict toLowerCase (w i d) = Unavailable)"
  unfolding unavailable_check_filter
  using in_filter_zip_iff [of d "\<lambda>(i, d). verdict toLowerCase (w i d) = Unavailable" ds] by simp

lemma neither_list_iff:
  "d \<notin> set (available (check toLowerCase w ds)) \<and>
   d \<notin> set (unavailable (check toLowerCase w ds)) \<longleftrightarrow>
   (\<forall>i<length ds. ds ! i = d \<longrightarrow> verdict toLowerCase (w i d) = Failed)"
proof -
  have "s = Failed \<longleftrightarrow> s \<noteq> Available \<and> s \<noteq> Unavailable" for s
    by (cases s) simp_all
  then show ?thesis
    unfolding in_available_iff in_unavailable_iff by blast
qed

lemma subseq_available: "subseq (available (check toLowerCase w ds)) ds"
proof -
  have "subseq (map snd (filter P (zip xs ds))) (map snd (zip xs ds))" for P and xs :: "nat list"
    by (intro subseq_map subseq_filter_left)
  from this [of _ "[0..<length ds]"] show ?thesis
    by (simp add: available_check_filter)
qed

lemma subseq_unavailable: "subseq (unavailable (check toLowerCase w ds)) ds"
proof -
  have "subseq (map snd (filter P (zip xs ds))) (map snd (zip xs ds))" for P and xs :: "nat list"
    by (intro subseq_map subseq_filter_left)
  from this [of _ "[0..<length ds]"] show ?thesis
    by (simp add: unavailable_check_filter)
qed

lemma available_subset: "set (available (check toLowerCase w ds)) \<subseteq> set ds"
  by (auto simp: in_available_iff)

lemma unavailable_subset: "set (unavailable (check toLowerCase w ds)) \<subseteq> set ds"
  by (auto simp: in_unavailable_iff)

lemma length_lists_le:
  "length (available (check toLowerCase w ds)) + length (unavailable (check toLowerCase w ds)) \<le> length ds"
  by (induction ds rule: rev_induct)
    (simp_all add: check_Nil available_check_snoc unavailable_check_snoc)

lemma count_available:
  "count_list (available (check toLowerCase w ds)) d =
   length (filter (\<lambda>k. ds ! k = d \<and> verdict toLowerCase (w k d) = Available) [0..<length ds])"
proof (induction ds rule: rev_induct)
  case Nil
  then show ?case by (simp add: check_Nil)
next
  case (snoc x xs)
  have "filter (\<lambda>k. (xs @ [x]) ! k = d \<and> verdict toLowerCase (w k d) = Available) [0..<length xs] =
        filter (\<lambda>k. xs ! k = d \<and> verdict toLowerCase (w k d) = Available) [0..<length xs]"
    by (rule filter_cong) (auto simp: nth_append)
  with snoc show ?case by (simp add: available_check_snoc)
qed

lemma count_unavailable:
  "count_list (unavailable (check toLowerCase w ds)) d =
   length (filter (\<lambda>k. ds ! k = d \<and> verdict toLowerCase (w k d) = Unavailable) [0..<length ds])"
proof (induction ds rule: rev_induct)
  case Nil
  then show ?case by (simp add: check_Nil)
next
  case (snoc x xs)
  have "filter (\<lambda>k. (xs @ [x]) ! k = d \<and> verdict toLowerCase (w k d) = Unavailable) [0..<length xs] =
        filter (\<lambda>k. xs ! k = d \<and> verdict toLowerCase (w k d) = Unavailable) [0..<length xs]"
    by (rule filter_cong) (auto simp: nth_append)
  with snoc show ?case by (simp add: unavailable_check_snoc)
qed

lemma two_in_filter:
  assumes "i < j" "j < n" "P i" "P j"
  shows "2 \<le> length (filter P [0..<n])"
proof -
  have "{i, j} \<subseteq> set (filter P [0..<n])" using assms by auto
  then have "card {i, j} \<le> card (set (filter P [0..<n]))"
    by (intro card_mono) simp_all
  also have "\<dots> = length (filter P [0..<n])"
    by (intro distinct_card) simp
  finally show ?thesis using assms(1) by simp
qed

subsection \<open>Completion order\<close>

text \<open>
  Once every query has completed, in whatever order, the await yields the settlements in
  input order; while one is pending it does not resume.
\<close>

lemma length_settle: "length (settle ps slots i) = length slots"
  by (simp add: settle_def)

lemma length_foldl_settle: "length (foldl (settle ps) slots order) = length slots"
  by (induction order arbitrary: slots) (simp_all add: length_settle)

lemma nth_settle:
  assumes "length slots = length ps" "i < length ps"
  shows "settle ps slots j ! i = (if i = j then Some (ps ! i) else slots ! i)"
  using assms by (auto simp: settle_def)

lemma nth_foldl_settle:
  assumes "length slots = length ps" "i < length ps"
  shows "foldl (settle ps) slots order ! i =
         (if i \<in> set order then Some (ps ! i) else slots ! i)"
  using assms
proof (induction order rule: rev_induct)
  case Nil
  then show ?case by simp
next
  case (snoc j order)
  then show ?case
    by (simp add: nth_settle length_foldl_settle)
qed

lemma those_map_Some: "those (map Some xs) = Some xs"
  by (induction xs) simp_all

lemma allSettled_all:
  assumes "set order = {0..<length ps}"
  shows "allSettled order ps = Some ps"
proof -
  have "foldl (settle ps) (replicate (length ps) None) order = map Some ps"
    by (rule nth_equalityI) (simp_all add: length_foldl_settle nth_foldl_settle assms)
  then show ?thesis by (simp add: allSettled_def those_map_Some)
qed

lemma check_completing_perm:
  assumes "mset order = mset [0..<length ds]"
  shows "check_completing toLowerCase order w ds = Some (check toLowerCase w ds)"
proof -
  have "set order = {0..<length (lookups toLowerCase w ds)}"
    using mset_eq_setD [OF assms] by (simp add: length_lookups)
  then show ?thesis
    by (simp add: check_completing_def allSettled_all check_def)
qed

lemma those_None:
  assumes "None \<in> set xs"
  shows "those xs = None"
  using assms by (induction xs) (auto split: option.splits)

lemma check_completing_pending:
  assumes "i < length ds" and "i \<notin> set order"
  shows "check_completing toLowerCase order w ds = None"
proof -
  let ?slots = "foldl (settle (lookups toLowerCase w ds)) (replicate (length (lookups toLowerCase w ds)) None) order"
  have "?slots ! i = None"
    using assms by (simp add: nth_foldl_settle length_lookups)
  moreover have "i < length ?slots"
    using assms(1) by (simp add: length_foldl_settle length_lookups)
  ultimately have "None \<in> set ?slots"
    by (metis nth_mem)
  then show ?thesis
    by (simp add: check_completing_def allSettled_def those_None)
qed

section \<open>Specified behaviour\<close>

text \<open>
  C1. A query that succeeds with a record in which some source is an object holding a truthy
  value under \<^verbatim>\<open>Registrar\<close>, \<^verbatim>\<open>Creation Date\<close> or \<^verbatim>\<open>Expiry Date\<close> (such a record is not
  empty) makes the lookup of that entry end with status \<^verbatim>\<open>unavailable\<close>, and the name of
  the entry is in the \<^verbatim>\<open>unavailable\<close> list of the report.
\<close>

theorem C1_registration_evidence_unavailable:
  assumes "i < length ds"
    and "w i (ds ! i) = Resolved (JObject domainInfo)"
    and "(source, JObject flds) \<in> set domainInfo"
    and "key \<in> {''Registrar'', ''Creation Date'', ''Expiry Date''}"
    and "map_of flds key = Some v"
    and "truthy v"
  shows "check_domain toLowerCase (ds ! i) (w i (ds ! i)) =
           Fulfilled \<lparr>domain = ds ! i, status = Unavailable, error = None\<rparr> \<and>
         ds ! i \<in> set (unavailable (check toLowerCase w ds))"
proof -
  have "domainInfo \<noteq> []" using assms(3) by auto
  moreover have "hasRegistrarData (JObject domainInfo)"
    using assms(3-6) by (rule hasRegistrarData_field)
  ultimately have r: "check_domain toLowerCase (ds ! i) (w i (ds ! i)) =
      Fulfilled \<lparr>domain = ds ! i, status = Unavailable, error = None\<rparr>"
    using assms(2) by (simp add: check_domain_def)
  then have "verdict toLowerCase (w i (ds ! i)) = Unavailable"
    using verdict_check_domain by fastforce
  then have "ds ! i \<in> set (unavailable (check toLowerCase w ds))"
    using assms(1) in_unavailable_iff by blast
  with r show ?thesis by simp
qed

theorem C1_witness:
  "check_domain sample_toLowerCase ''google.com'' (whois_batch 1 ''google.com'') =
     Fulfilled \<lparr>domain = ''google.com'', status = Unavailable, error = None\<rparr> \<and>
   ''google.com'' \<in> set (unavailable (check sample_toLowerCase whois_batch three_domains))"
  using C1_registration_evidence_unavailable [where i = 1 and ds = three_domains
      and w = whois_batch and domainInfo = registered_record
      and source = "''whois.verisign-grs.com''"
      and flds = "[(''Registrar'', JString ''MarkMonitor Inc.'')]"
      and key = "''Registrar''" and v = "JString ''MarkMonitor Inc.''"
      and toLowerCase = sample_toLowerCase]
  by (simp add: three_domains_def whois_batch_def registered_record_def)




text \<open>
  C3. A query that succeeds with a non-empty record in which no source object holds a truthy
  value under \<^verbatim>\<open>Registrar\<close>, \<^verbatim>\<open>Creation Date\<close> or \<^verbatim>\<open>Expiry Date\<close>: the status is
  \<^verbatim>\<open>available\<close> if the lower-cased \<^verbatim>\<open>JSON.stringify\<close> of the whole record contains one of
  the six patterns, and \<^verbatim>\<open>unavailable\<close> otherwise. This holds for every lower-casing, so
  for the Unicode one: a pattern spelt with KELVIN SIGN counts.
\<close>

theorem C3_text_sniffing_without_registration_fields:
  assumes "domainInfo \<noteq> []"
    and "\<forall>source flds key v.
      (source, JObject flds) \<in> set domainInfo \<and>
      key \<in> {''Registrar'', ''Creation Date'', ''Expiry Date''} \<and>
      map_of flds key = Some v \<longrightarrow> \<not> truthy v"
  shows "check_domain toLowerCase d (Resolved (JObject domainInfo)) =
     Fulfilled \<lparr>domain = d,
       status = (if \<exists>pat \<in> set [''no match'', ''not found'', ''domain name not known'',
                         ''no entries found'', ''is available'', ''is free''].
                      str_includes (toLowerCase (JSON_stringify (JObject domainInfo))) pat
                 then Available else Unavailable),
       error = None\<rparr>"
  using assms(1) no_hasRegistrarData [OF assms(2)]
  by (auto simp: check_domain_def Let_def)

theorem C3_witness:
  "check_domain sample_toLowerCase ''rate-limited.dev'' (Resolved (JObject ambiguous_record)) =
     Fulfilled \<lparr>domain = ''rate-limited.dev'', status = Unavailable, error = None\<rparr> \<and>
   check_domain sample_toLowerCase ''totally-free-xyz123.dev'' (Resolved (JObject free_record)) =
     Fulfilled \<lparr>domain = ''totally-free-xyz123.dev'', status = Available, error = None\<rparr> \<and>
   check_domain sample_toLowerCase ''kelvin.dev'' (Resolved (JObject kelvin_record)) =
     Fulfilled \<lparr>domain = ''kelvin.dev'', status = Available, error = None\<rparr>"
proof -
  have m: "\<exists>pat \<in> set [''no match'', ''not found'', ''domain name not known'',
                         ''no entries found'', ''is available'', ''is free''].
              str_includes (sample_toLowerCase (JSON_stringify (JObject free_record))) pat"
    by code_simp
  have k: "\<exists>pat \<in> set [''no match'', ''not found'', ''domain name not known'',
                         ''no entries found'', ''is available'', ''is free''].
              str_includes (sample_toLowerCase (JSON_stringify (JObject kelvin_record))) pat"
    by code_simp
  have n: "\<not> (\<exists>pat \<in> set [''no match'', ''not found'', ''domain name not known'',
                         ''no entries found'', ''is available'', ''is free''].
              str_includes (sample_toLowerCase (JSON_stringify (JObject ambiguous_record))) pat)"
    by code_simp
  have a: "\<forall>source flds key v.
      (source, JObject flds) \<in> set ambiguous_record \<and>
      key \<in> {''Registrar'', ''Creation Date'', ''Expiry Date''} \<and>
      map_of flds key = Some v \<longrightarrow> \<not> truthy v"
    by (auto simp: ambiguous_record_def)
  have f: "\<forall>source flds key v.
      (source, JObject flds) \<in> set free_record \<and>
      key \<in> {''Registrar'', ''Creation Date'', ''Expiry Date''} \<and>
      map_of flds key = Some v \<longrightarrow> \<not> truthy v"
    by (auto simp: free_record_def)
  have g: "\<forall>source flds key v.
      (source, JObject flds) \<in> set kelvin_record \<and>
      key \<in> {''Registrar'', ''Creation Date'', ''Expiry Date''} \<and>
      map_of flds key = Some v \<longrightarrow> \<not> truthy v"
    by (auto simp: kelvin_record_def)
  have ne: "ambiguous_record \<noteq> []" "free_record \<noteq> []" "kelvin_record \<noteq> []"
    by (simp_all add: ambiguous_record_def free_record_def kelvin_record_def)
  show ?thesis
    using C3_text_sniffing_without_registration_fields [OF ne(1) a,
        where toLowerCase = sample_toLowerCase and d = "''rate-limited.dev''"]
      C3_text_sniffing_without_registration_fields [OF ne(2) f,
        where toLowerCase = sample_toLowerCase and d = "''totally-free-xyz123.dev''"]
      C3_text_sniffing_without_registration_fields [OF ne(3) g,
        where toLowerCase = sample_toLowerCase and d = "''kelvin.dev''"]
      m n k
    by simp
qed

text \<open>
  C4. A query that succeeds with the empty record gives status \<^verbatim>\<open>available\<close>, and the name
  of the entry is in the \<^verbatim>\<open>available\<close> list of the report.
\<close>

theorem C4_empty_record_available:
  assumes "i < length ds" and "w i (ds ! i) = Resolved (JObject [])"
  shows "check_domain toLowerCase (ds ! i) (w i (ds ! i)) =
           Fulfilled \<lparr>domain = ds ! i, status = Available, error = None\<rparr> \<and>
         ds ! i \<in> set (available (check toLowerCase w ds))"
proof -
  have r: "check_domain toLowerCase (ds ! i) (w i (ds ! i)) =
      Fulfilled \<lparr>domain = ds ! i, status = Available, error = None\<rparr>"
    using assms(2) by (simp add: check_domain_def)
  then have "verdict toLowerCase (w i (ds ! i)) = Available"
    using verdict_check_domain by fastforce
  then have "ds ! i \<in> set (available (check toLowerCase w ds))"
    using assms(1) in_available_iff by blast
  with r show ?thesis by simp
qed

theorem C4_witness:
  "check_domain sample_toLowerCase ''totally-free-xyz123.dev''
     (whois_batch 2 ''totally-free-xyz123.dev'') =
     Fulfilled \<lparr>domain = ''totally-free-xyz123.dev'', status = Available, error = None\<rparr> \<and>
   ''totally-free-xyz123.dev'' \<in>
     set (available (check sample_toLowerCase whois_batch three_domains))"
  using C4_empty_record_available [where i = 2 and ds = three_domains and w = whois_batch
      and toLowerCase = sample_toLowerCase]
  by (simp add: three_domains_def whois_batch_def)

text \<open>
  C5. The invariant that no name is in both lists does not hold for every input and every
  assignment of outcomes: one query is made per entry, so a name entered twice can see two
  different outcomes, and then it stands in both lists.
\<close>

theorem C5_counterexample:
  "''a.com'' \<in> set (available (check sample_toLowerCase whois_split twice)) \<and>
   ''a.com'' \<in> set (unavailable (check sample_toLowerCase whois_split twice))"
  by code_simp

text \<open>
  C5, amended. A name is in both lists exactly when the input has two entries of that name
  of which one is classified \<^verbatim>\<open>available\<close> and the other \<^verbatim>\<open>unavailable\<close>; every other name
  is in at most one list. A name is in neither list exactly when every entry of it is
  indeterminate.
\<close>

theorem C5_both_lists_exactly_when:
  "(d \<in> set (available (check toLowerCase w ds)) \<and>
    d \<in> set (unavailable (check toLowerCase w ds)) \<longleftrightarrow>
    (\<exists>i<length ds. \<exists>j<length ds. ds ! i = d \<and> ds ! j = d \<and>
       verdict toLowerCase (w i d) = Available \<and>
       verdict toLowerCase (w j d) = Unavailable)) \<and>
   (d \<notin> set (available (check toLowerCase w ds)) \<and>
    d \<notin> set (unavailable (check toLowerCase w ds)) \<longleftrightarrow>
    (\<forall>i<length ds. ds ! i = d \<longrightarrow> verdict toLowerCase (w i d) = Failed))"
proof (rule conjI)
  show "d \<in> set (available (check toLowerCase w ds)) \<and>
    d \<in> set (unavailable (check toLowerCase w ds)) \<longleftrightarrow>
    (\<exists>i<length ds. \<exists>j<length ds. ds ! i = d \<and> ds ! j = d \<and>
       verdict toLowerCase (w i d) = Available \<and>
       verdict toLowerCase (w j d) = Unavailable)"
    unfolding in_available_iff in_unavailable_iff by blast
next
  show "d \<notin> set (available (check toLowerCase w ds)) \<and>
    d \<notin> set (unavailable (check toLowerCase w ds)) \<longleftrightarrow>
    (\<forall>i<length ds. ds ! i = d \<longrightarrow> verdict toLowerCase (w i d) = Failed)"
    by (rule neither_list_iff)
qed

theorem C5_witness:
  "\<not> (''a.com'' \<in> set (available (check sample_toLowerCase whois_registered twice)) \<and>
      ''a.com'' \<in> set (unavailable (check sample_toLowerCase whois_registered twice))) \<and>
   ''a-times-out.com'' \<notin> set (available (check sample_toLowerCase whois_flaky three_domains)) \<and>
   ''a-times-out.com'' \<notin> set (unavailable (check sample_toLowerCase whois_flaky three_domains))"
proof -
  have v: "verdict sample_toLowerCase (Resolved (JObject registered_record)) = Unavailable"
    by code_simp
  have r: "\<not> (\<exists>i<length twice. \<exists>j<length twice. twice ! i = ''a.com'' \<and> twice ! j = ''a.com'' \<and>
       verdict sample_toLowerCase (whois_registered i ''a.com'') = Available \<and>
       verdict sample_toLowerCase (whois_registered j ''a.com'') = Unavailable)"
    using v by (simp add: whois_registered_def)
  have f: "verdict sample_toLowerCase (Raised timeout_error) = Failed"
    by code_simp
  have d: "\<forall>i<length three_domains. three_domains ! i = ''a-times-out.com'' \<longrightarrow>
      verdict sample_toLowerCase (whois_flaky i ''a-times-out.com'') = Failed"
    using f by (auto simp: three_domains_def whois_flaky_def less_Suc_eq numeral_3_eq_3)
  note t1 = C5_both_lists_exactly_when [where toLowerCase = sample_toLowerCase
      and d = "''a.com''" and w = whois_registered and ds = twice, THEN conjunct1]
  note t2 = C5_both_lists_exactly_when [where toLowerCase = sample_toLowerCase
      and d = "''a-times-out.com''" and w = whois_flaky and ds = three_domains, THEN conjunct2]
  have 1: "\<not> (''a.com'' \<in> set (available (check sample_toLowerCase whois_registered twice)) \<and>
      ''a.com'' \<in> set (unavailable (check sample_toLowerCase whois_registered twice)))"
    using t1 r by blast
  have 2: "''a-times-out.com'' \<notin> set (available (check sample_toLowerCase whois_flaky three_domains)) \<and>
     ''a-times-out.com'' \<notin> set (unavailable (check sample_toLowerCase whois_flaky three_domains))"
    using t2 d by blast
  from 1 2 show ?thesis by (intro conjI) simp_all
qed

text \<open>
  C6. Whatever the order in which the queries complete (each completing once), \<^verbatim>\<open>check\<close>
  returns the same report: \<^verbatim>\<open>available\<close> holds, in input order, the names of the entries
  whose verdict is \<^verbatim>\<open>available\<close>, likewise \<^verbatim>\<open>unavailable\<close>, and each list is a subsequence
  of the input.
\<close>

theorem C6_input_order_preserved:
  assumes "mset order = mset [0..<length ds]"
  shows "check_completing toLowerCase order w ds = Some (check toLowerCase w ds) \<and>
         available (check toLowerCase w ds) =
           map snd (filter (\<lambda>(i, d). verdict toLowerCase (w i d) = Available)
             (zip [0..<length ds] ds)) \<and>
         unavailable (check toLowerCase w ds) =
           map snd (filter (\<lambda>(i, d). verdict toLowerCase (w i d) = Unavailable)
             (zip [0..<length ds] ds)) \<and>
         subseq (available (check toLowerCase w ds)) ds \<and>
         subseq (unavailable (check toLowerCase w ds)) ds"
  using check_completing_perm [OF assms] available_check_filter unavailable_check_filter
    subseq_available subseq_unavailable
  by simp

theorem C6_witness:
  "check_completing sample_toLowerCase [2, 0, 1] whois_batch three_domains =
     Some (check sample_toLowerCase whois_batch three_domains) \<and>
   check sample_toLowerCase whois_batch three_domains =
     \<lparr>available = [''totally-free-xyz123.dev''], unavailable = [''google.com'']\<rparr> \<and>
   subseq (available (check sample_toLowerCase whois_batch three_domains)) three_domains \<and>
   subseq (unavailable (check sample_toLowerCase whois_batch three_domains)) three_domains"
proof -
  have h: "mset [2, 0, 1] = mset [0..<length three_domains]"
    by (simp add: three_domains_def upt_rec)
  have v: "check sample_toLowerCase whois_batch three_domains =
     \<lparr>available = [''totally-free-xyz123.dev''], unavailable = [''google.com'']\<rparr>"
    by code_simp
  note t = C6_input_order_preserved [OF h, where toLowerCase = sample_toLowerCase
      and w = whois_batch]
  have a: "check_completing sample_toLowerCase [2, 0, 1] whois_batch three_domains =
      Some (check sample_toLowerCase whois_batch three_domains)"
    using t by (rule conjunct1)
  have b: "subseq (available (check sample_toLowerCase whois_batch three_domains)) three_domains"
    using t by (elim conjE)
  have c: "subseq (unavailable (check sample_toLowerCase whois_batch three_domains)) three_domains"
    using t by (elim conjE)
  show ?thesis
    using a v b c by (intro conjI)
qed

text \<open>
  C7. A query that raises never makes \<^verbatim>\<open>check\<close> raise. Either the \<^verbatim>\<open>catch\<close> block returns,
  with status \<^verbatim>\<open>available\<close> or \<^verbatim>\<open>failed\<close>, or it raises itself and the lookup is rejected;
  \<^verbatim>\<open>Promise.allSettled\<close> takes the rejection as a settlement and the aggregation skips it.
  The verdict is \<^verbatim>\<open>available\<close> or indeterminate either way, and once every query has
  completed, in any order, \<^verbatim>\<open>check\<close> returns its report.
\<close>

theorem C7_lookup_failures_absorbed:
  assumes "mset order = mset [0..<length ds]"
  shows "(\<forall>i<length ds. \<forall>err. w i (ds ! i) = Raised err \<longrightarrow>
            ((\<exists>v. lookups toLowerCase w ds ! i = Fulfilled v \<and>
                  (status v = Available \<or> status v = Failed)) \<or>
             (\<exists>exn. lookups toLowerCase w ds ! i = Rejected exn)) \<and>
            (verdict toLowerCase (w i (ds ! i)) = Available \<or>
             verdict toLowerCase (w i (ds ! i)) = Failed)) \<and>
         (\<forall>results exn i. process_result ds results (Rejected exn, i) = results) \<and>
         check_completing toLowerCase order w ds = Some (check toLowerCase w ds)"
proof -
  have "((\<exists>v. lookups toLowerCase w ds ! i = Fulfilled v \<and>
                  (status v = Available \<or> status v = Failed)) \<or>
             (\<exists>exn. lookups toLowerCase w ds ! i = Rejected exn)) \<and>
            (verdict toLowerCase (w i (ds ! i)) = Available \<or>
             verdict toLowerCase (w i (ds ! i)) = Failed)"
    if i: "i < length ds" and r: "w i (ds ! i) = Raised err" for i err
  proof -
    have l: "lookups toLowerCase w ds ! i = check_domain toLowerCase (ds ! i) (w i (ds ! i))"
      using i by (simp add: lookups_def)
    have "(\<exists>v. check_domain toLowerCase (ds ! i) (Raised err) = Fulfilled v \<and>
             (status v = Available \<or> status v = Failed)) \<or>
          (\<exists>exn. check_domain toLowerCase (ds ! i) (Raised err) = Rejected exn)"
      by (auto simp: check_domain_def split: sum.splits)
    moreover from this have "verdict toLowerCase (Raised err) = Available \<or>
        verdict toLowerCase (Raised err) = Failed"
      using check_domain_verdict [of toLowerCase "ds ! i" "Raised err"] by auto
    ultimately show ?thesis using l r by simp
  qed
  moreover have "process_result ds results (Rejected exn, i) = results" for results exn i
    by (simp add: process_result_def)
  ultimately show ?thesis using check_completing_perm [OF assms] by simp
qed

theorem C7_witness:
  "lookups sample_toLowerCase whois_null three_domains ! 0 = Rejected TypeError \<and>
   verdict sample_toLowerCase (whois_null 0 (three_domains ! 0)) = Failed \<and>
   (\<exists>v. lookups sample_toLowerCase whois_down three_domains ! 0 = Fulfilled v \<and>
        (status v = Available \<or> status v = Failed)) \<and>
   check_completing sample_toLowerCase [1, 2, 0] whois_null three_domains =
     Some (check sample_toLowerCase whois_null three_domains) \<and>
   check sample_toLowerCase whois_null three_domains = \<lparr>available = [], unavailable = []\<rparr>"
proof -
  have h: "mset [1, 2, 0] = mset [0..<length three_domains]"
    by (simp add: three_domains_def upt_rec)
  have l: "0 < length three_domains" by (simp add: three_domains_def)
  have rn: "whois_null 0 (three_domains ! 0) = Raised (Thrown JNull)"
    by (simp add: whois_null_def)
  have n: "lookups sample_toLowerCase whois_null three_domains ! 0 = Rejected TypeError"
    by code_simp
  have d: "lookups sample_toLowerCase whois_down three_domains ! 0 =
      Fulfilled \<lparr>domain = ''a-times-out.com'', status = Failed,
                 error = Some (ensureMcpError timeout_error)\<rparr>"
    by code_simp
  have c: "check sample_toLowerCase whois_null three_domains =
      \<lparr>available = [], unavailable = []\<rparr>"
    by code_simp
  have vn: "verdict sample_toLowerCase (whois_null 0 (three_domains ! 0)) \<noteq> Available"
    by code_simp
  note tn = C7_lookup_failures_absorbed [OF h, where toLowerCase = sample_toLowerCase
      and w = whois_null]
  have 1: "verdict sample_toLowerCase (whois_null 0 (three_domains ! 0)) = Failed"
    using tn l rn vn by blast
  have 2: "\<exists>v. lookups sample_toLowerCase whois_down three_domains ! 0 = Fulfilled v \<and>
        (status v = Available \<or> status v = Failed)"
    using d by simp
  have 3: "check_completing sample_toLowerCase [1, 2, 0] whois_null three_domains =
     Some (check sample_toLowerCase whois_null three_domains)"
    using tn by (elim conjE)
  from n 1 2 3 c show ?thesis by (intro conjI)
qed

text \<open>
  C8. A duplicate with identical outcomes is not always preserved in the output: when both
  lookups fail without a pattern, both occurrences are dropped.
\<close>

theorem C8_counterexample:
  "whois_down 0 ''a.com'' = whois_down 1 ''a.com'' \<and>
   check sample_toLowerCase whois_down twice = \<lparr>available = [], unavailable = []\<rparr>"
  by code_simp

text \<open>
  C8, amended. The lookup is a function of the query outcome: two runs whose queries end
  alike return the same report, whatever the orders of completion. Two entries of the same
  name with identical outcomes get the same result; when it is \<^verbatim>\<open>available\<close> or
  \<^verbatim>\<open>unavailable\<close> both occurrences stand in that list. A list holds a name as many times
  as the input has entries of that name with the list's verdict, so occurrences whose
  verdict is \<^verbatim>\<open>failed\<close> are dropped from both.
\<close>

theorem C8_duplicates_classified_alike:
  assumes "i < j" and "j < length ds" and "ds ! i = d" and "ds ! j = d"
    and "w i d = w j d"
    and "\<forall>k<length ds. w' k (ds ! k) = w k (ds ! k)"
    and "mset order = mset [0..<length ds]" and "mset order' = mset [0..<length ds]"
  shows "check_domain toLowerCase d (w i d) = check_domain toLowerCase d (w j d) \<and>
         check_completing toLowerCase order' w' ds = check_completing toLowerCase order w ds \<and>
         check_completing toLowerCase order w ds = Some (check toLowerCase w ds) \<and>
         (verdict toLowerCase (w i d) = Available \<longrightarrow>
            2 \<le> count_list (available (check toLowerCase w ds)) d) \<and>
         (verdict toLowerCase (w i d) = Unavailable \<longrightarrow>
            2 \<le> count_list (unavailable (check toLowerCase w ds)) d) \<and>
         count_list (available (check toLowerCase w ds)) d =
           length (filter (\<lambda>k. ds ! k = d \<and> verdict toLowerCase (w k d) = Available)
             [0..<length ds]) \<and>
         count_list (unavailable (check toLowerCase w ds)) d =
           length (filter (\<lambda>k. ds ! k = d \<and> verdict toLowerCase (w k d) = Unavailable)
             [0..<length ds])"
proof -
  have a: "2 \<le> count_list (available (check toLowerCase w ds)) d"
    if "verdict toLowerCase (w i d) = Available"
    unfolding count_available
    using assms that by (intro two_in_filter [of i j]) simp_all
  have u: "2 \<le> count_list (unavailable (check toLowerCase w ds)) d"
    if "verdict toLowerCase (w i d) = Unavailable"
    unfolding count_unavailable
    using assms that by (intro two_in_filter [of i j]) simp_all
  have "check_completing toLowerCase order' w' ds = Some (check toLowerCase w ds)"
    using check_completing_perm [OF assms(8), where w = w' and toLowerCase = toLowerCase]
      check_cong [where ds = ds and w' = w' and w = w and toLowerCase = toLowerCase] assms(6)
    by simp
  then show ?thesis
    using a u assms(5) check_completing_perm [OF assms(7)] count_available count_unavailable
    by simp
qed

theorem C8_witness:
  "check_completing sample_toLowerCase [0, 1] whois_registered twice =
     check_completing sample_toLowerCase [1, 0] whois_registered twice \<and>
   check_completing sample_toLowerCase [1, 0] whois_registered twice =
     Some (check sample_toLowerCase whois_registered twice) \<and>
   2 \<le> count_list (unavailable (check sample_toLowerCase whois_registered twice)) ''a.com'' \<and>
   count_list (available (check sample_toLowerCase whois_registered twice)) ''a.com'' = 0 \<and>
   2 \<le> count_list (available (check sample_toLowerCase whois_gone twice)) ''a.com''"
proof -
  have h: "mset [1, 0] = mset [0..<length twice]" "mset [0, 1] = mset [0..<length twice]"
    by (simp_all add: twice_def upt_rec)
  have v: "verdict sample_toLowerCase (whois_registered 0 ''a.com'') = Unavailable"
    by code_simp
  have g: "verdict sample_toLowerCase (whois_gone 0 ''a.com'') = Available" by code_simp
  have z: "length (filter (\<lambda>k. twice ! k = ''a.com'' \<and>
      verdict sample_toLowerCase (whois_registered k ''a.com'') = Available)
      [0..<length twice]) = 0"
    using v by (simp add: whois_registered_def)
  have p: "(0::nat) < 1" "1 < length twice" "twice ! 0 = ''a.com''" "twice ! 1 = ''a.com''"
    by (simp_all add: twice_def)
  have r: "whois_registered 0 ''a.com'' = whois_registered 1 ''a.com''"
    by (simp add: whois_registered_def)
  have n: "whois_gone 0 ''a.com'' = whois_gone 1 ''a.com''"
    by (simp add: whois_gone_def)
  have s: "\<forall>k<length twice. whois_registered k (twice ! k) = whois_registered k (twice ! k)"
    "\<forall>k<length twice. whois_gone k (twice ! k) = whois_gone k (twice ! k)"
    by simp_all
  note t1 = C8_duplicates_classified_alike [where i = 0 and j = 1 and ds = twice
      and d = "''a.com''" and w = whois_registered and w' = whois_registered
      and order = "[1, 0]" and order' = "[0, 1]" and toLowerCase = sample_toLowerCase,
      OF p r s(1) h]
  note t2 = C8_duplicates_classified_alike [where i = 0 and j = 1 and ds = twice
      and d = "''a.com''" and w = whois_gone and w' = whois_gone
      and order = "[1, 0]" and order' = "[0, 1]" and toLowerCase = sample_toLowerCase,
      OF p n s(2) h]
  show ?thesis using t1 t2 v g z by simp
qed

text \<open>
  C9. On the empty list of domains \<^verbatim>\<open>check\<close> returns the report with two empty lists; no
  query is launched, so the await resumes at once.
\<close>

theorem C9_empty_input:
  "check toLowerCase w [] = \<lparr>available = [], unavailable = []\<rparr> \<and>
   check_completing toLowerCase [] w [] = Some \<lparr>available = [], unavailable = []\<rparr>"
  by (simp add: check_Nil check_completing_perm)

text \<open>
  C10. Each list of the report is a subsequence of the input, so every name in it is a name
  of the input, and the two lists together are no longer than the input.
\<close>

theorem C10_lists_within_input:
  "subseq (available (check toLowerCase w ds)) ds \<and>
   subseq (unavailable (check toLowerCase w ds)) ds \<and>
   set (available (check toLowerCase w ds)) \<subseteq> set ds \<and>
   set (unavailable (check toLowerCase w ds)) \<subseteq> set ds \<and>
   length (available (check toLowerCase w ds)) + length (unavailable (check toLowerCase w ds))
     \<le> length ds"
  using subseq_available [of toLowerCase w ds] subseq_unavailable [of toLowerCase w ds]
    length_lists_le [of toLowerCase w ds]
    available_subset [of toLowerCase w ds] unavailable_subset [of toLowerCase w ds]
  by simp

end
